theory Spec2Isabelle
  imports Complex_Main "HOL-Library.AList"
begin

section \<open>Data model\<close>

text \<open>
  The farm is the dictionary of populations returned by \<open>get_populations()\<close>: pen id to
  herd. A herd holds its animals and its state variables; the aggregates
  (\<open>total_herd\<close>, \<open>total_I\<close>, \<open>total_Jnb\<close>) are counts over the membership.
  Python floats are idealised as reals; Python integers are \<open>int\<close>.
\<close>

datatype age_group = Age_A | Age_G | Age_F | Age_Jnb | Age_Jn | Age_Jf

datatype health_state = State_S | State_E | State_I | State_M

record animal =
  age :: age_group
  health :: health_state

record herd =
  animals :: "animal list"
  trans_btwn_pens_frm_movement :: real
  nb_of_sampled_I_Jf :: int
  nb_new_farrowing_sows :: int

type_synonym herds = "int \<rightharpoonup> herd"

record parameters =
  K_herd :: real
  nb_herds :: int
  between_herd_trans :: real
  neighboring_herd_trans :: real
  biosec_remove_risky_move :: int
  max_bp_trans :: real
  min_bp_trans :: real
  mean_bp_trans :: real
  vert_trans :: real

datatype error = KeyError | ZeroDivisionError | SemanticException | SystemExit

text \<open>
  A process mutates the herds in place, so an exception leaves behind whatever was
  written before it: \<open>Raises e hs\<close> carries the herds as they stand when \<open>e\<close> is raised.
\<close>

datatype 'a outcome = Returns 'a | Raises error 'a

fun state_of :: "'a outcome \<Rightarrow> 'a" where
  "state_of (Returns s) = s"
| "state_of (Raises e s) = s"

definition total_herd :: "herd \<Rightarrow> int" where
  "total_herd h = int (length (animals h))"

definition total_I :: "herd \<Rightarrow> int" where
  "total_I h = int (length (filter (\<lambda>a. health a = State_I) (animals h)))"

definition total_Jnb :: "herd \<Rightarrow> int" where
  "total_Jnb h = int (length (filter (\<lambda>a. age a = Age_Jnb) (animals h)))"

text \<open>\<open>herds[k].statevars.trans_btwn_pens_frm_movement += x\<close>; \<open>None\<close> when pen \<open>k\<close> is missing.\<close>

definition add_trans :: "herds \<Rightarrow> int \<Rightarrow> real \<Rightarrow> herds option" where
  "add_trans hs k x =
     (case hs k of
        None \<Rightarrow> None
      | Some h \<Rightarrow>
          Some (hs(k \<mapsto> h\<lparr>trans_btwn_pens_frm_movement := trans_btwn_pens_frm_movement h + x\<rparr>)))"

text \<open>\<open>herds[k].statevars.trans_btwn_pens_frm_movement = x\<close>.\<close>

definition set_trans :: "herds \<Rightarrow> int \<Rightarrow> real \<Rightarrow> herds option" where
  "set_trans hs k x =
     (case hs k of
        None \<Rightarrow> None
      | Some h \<Rightarrow> Some (hs(k \<mapsto> h\<lparr>trans_btwn_pens_frm_movement := x\<rparr>)))"

section \<open>Movement transmission (farmer_movement, animal_farmer_movement)\<close>

text \<open>
  The gamma parameters of \<open>bp_trans\<close> are computed for every edge with
  \<open>source != dest\<close>: \<open>sd = (max - min) / 4\<close>, \<open>shape = (mean / sd) ** 2\<close>,
  \<open>scale = sd ** 2 / mean\<close>. Both divisions raise on a zero divisor. The drawn value
  is never used afterwards.
\<close>

definition bp_trans_raises :: "parameters \<Rightarrow> bool" where
  "bp_trans_raises p \<longleftrightarrow>
     (max_bp_trans p - min_bp_trans p) / 4 = 0 \<or> mean_bp_trans p = 0"

text \<open>The pooled totals over \<open>range(4, 16)\<close>, for an edge whose source is pen 4.\<close>

fun fattening_totals :: "herds \<Rightarrow> int list \<Rightarrow> int \<Rightarrow> int \<Rightarrow> error + (int \<times> int)" where
  "fattening_totals hs [] ti th = Inr (ti, th)"
| "fattening_totals hs (i # js) ti th =
     (case hs i of
        None \<Rightarrow> Inl KeyError
      | Some h \<Rightarrow> fattening_totals hs js (ti + total_I h) (th + total_herd h))"

text \<open>The biosecurity override on the normalised duration.\<close>

definition biosec_dur :: "parameters \<Rightarrow> int \<Rightarrow> int \<Rightarrow> real \<Rightarrow> real" where
  "biosec_dur p source dest dur =
     (if (4 \<le> source \<and> source \<le> 15) \<and> (1 \<le> dest \<and> dest \<le> 3)
          \<and> biosec_remove_risky_move p = 1 then 0
      else if ((source = 1 \<and> dest = 2) \<or> (source = 3 \<and> 1 \<le> dest \<and> dest \<le> 2))
          \<and> biosec_remove_risky_move p = 1 then 0
      else dur)"

definition trans_I_from_source ::
  "parameters \<Rightarrow> herds \<Rightarrow> int \<Rightarrow> int \<Rightarrow> real \<Rightarrow> error + real" where
  "trans_I_from_source p hs source dest dur =
     (case hs source of
        None \<Rightarrow> Inl KeyError
      | Some hsrc \<Rightarrow>
          if total_herd hsrc > 0 \<and> dest \<noteq> 16 \<and> dest \<noteq> 17 then
            (let dur' = biosec_dur p source dest (dur / 10080) in
             if source \<noteq> 4 then
               Inr (dur' * between_herd_trans p * of_int (total_I hsrc) / of_int (total_herd hsrc))
             else
               (case fattening_totals hs [4..15] 0 0 of
                  Inl e \<Rightarrow> Inl e
                | Inr (ti, th) \<Rightarrow>
                    (let th' = (if th = 0 then 1 else th)
                     in Inr (dur' * between_herd_trans p * of_int ti / of_int th'))))
          else Inr 0)"

text \<open>
  The loop run when \<open>dest == 4\<close>: \<open>for i in range(5, 16)\<close> with body
  \<open>herds[dest].statevars.trans_btwn_pens_frm_movement += trans_I_from_source\<close>.
  The body indexes the herds by \<open>dest\<close>; the loop variable is not used.
\<close>

fun fattening_entry_loop :: "int list \<Rightarrow> int \<Rightarrow> real \<Rightarrow> herds \<Rightarrow> herds outcome" where
  "fattening_entry_loop [] dest t hs = Returns hs"
| "fattening_entry_loop (i # js) dest t hs =
     (case add_trans hs dest t of
        None \<Rightarrow> Raises KeyError hs
      | Some hs' \<Rightarrow> fattening_entry_loop js dest t hs')"

text \<open>One scheduled edge \<open>(source, dest, dur)\<close>: the body of the two nested loops.\<close>

definition movement_edge ::
  "parameters \<Rightarrow> int \<Rightarrow> int \<times> real \<Rightarrow> herds \<Rightarrow> herds outcome" where
  "movement_edge p source e hs =
     (case e of (dest, dur) \<Rightarrow>
        if source \<noteq> dest then
          if bp_trans_raises p then Raises ZeroDivisionError hs
          else
            (case trans_I_from_source p hs source dest dur of
               Inl err \<Rightarrow> Raises err hs
             | Inr t \<Rightarrow>
                 (case add_trans hs dest t of
                    None \<Rightarrow> Raises KeyError hs
                  | Some hs' \<Rightarrow>
                      if dest = 4 then fattening_entry_loop [5..15] dest t hs'
                      else Returns hs'))
        else Returns hs)"




text \<open>
  The schedule is a Python dictionary of dictionaries of lists; iteration follows insertion
  order, so it is an association list of association lists.
\<close>

type_synonym schedule = "(int \<times> (int \<times> (int \<times> real) list) list) list"


section \<open>Adjacency transmission (sample_I_from_fatteners)\<close>

text \<open>
  \<open>sample_I_from_fatteners\<close> of \<open>movement_12fatpens_swIAVs.py\<close>, the full-pairwise
  variant. It starts with the counter of pen 4: set to 0, then increased by
  \<open>sum(1 for i in range(12) if herds[i + 4].total_I > 0)\<close>; the loop over the pens
  follows.

  \<open>movement_12fatpens_outrans.py\<close> holds a line-adjacency variant of the function. It
  is not embedded: there the function is a definition at module level, placed after
  module-level statements that use the name \<open>herds\<close>, which is not defined at that
  level (from line 160 on), and its first statements read \<open>herds.statevars\<close> on the
  populations mapping, not on one of its pens.
\<close>

fun sampled_sum :: "herds \<Rightarrow> int list \<Rightarrow> int \<Rightarrow> error + int" where
  "sampled_sum hs [] acc = Inr acc"
| "sampled_sum hs (i # js) acc =
     (case hs (i + 4) of
        None \<Rightarrow> Inl KeyError
      | Some h \<Rightarrow> sampled_sum hs js (if total_I h > 0 then acc + 1 else acc))"

definition count_sampled :: "herds \<Rightarrow> herds outcome" where
  "count_sampled hs =
     (case hs 4 of
        None \<Rightarrow> Raises KeyError hs
      | Some h4 \<Rightarrow>
          (let h4' = h4\<lparr>nb_of_sampled_I_Jf := 0\<rparr>; hs0 = hs(4 \<mapsto> h4')
           in case sampled_sum hs0 [0..11] 0 of
                Inl e \<Rightarrow> Raises e hs0
              | Inr n \<Rightarrow>
                  Returns (hs0(4 \<mapsto> h4'\<lparr>nb_of_sampled_I_Jf := nb_of_sampled_I_Jf h4' + n\<rparr>))))"

fun others_totals :: "herds \<Rightarrow> int \<Rightarrow> int list \<Rightarrow> int \<Rightarrow> int \<Rightarrow> error + (int \<times> int)" where
  "others_totals hs i [] ti th = Inr (ti, th)"
| "others_totals hs i (j # js) ti th =
     (if j \<noteq> i then
        (case hs j of
           None \<Rightarrow> Inl KeyError
         | Some h \<Rightarrow> others_totals hs i js (ti + total_I h) (th + total_herd h))
      else others_totals hs i js ti th)"

fun pairwise_loop :: "parameters \<Rightarrow> int list \<Rightarrow> herds \<Rightarrow> herds outcome" where
  "pairwise_loop p [] hs = Returns hs"
| "pairwise_loop p (i # js) hs =
     (case others_totals hs i [4..15] 0 0 of
        Inl e \<Rightarrow> Raises e hs
      | Inr (ti, th) \<Rightarrow>
          (let portion_I = (if th \<noteq> 0 then of_int ti / of_int th else 0)
           in case set_trans hs i (neighboring_herd_trans p * portion_I) of
                None \<Rightarrow> Raises KeyError hs
              | Some hs' \<Rightarrow> pairwise_loop p js hs'))"

definition sample_I_from_fatteners_swIAVs :: "parameters \<Rightarrow> herds \<Rightarrow> herds outcome" where
  "sample_I_from_fatteners_swIAVs p hs =
     (case count_sampled hs of
        Raises e hs' \<Rightarrow> Raises e hs'
      | Returns hs' \<Rightarrow> pairwise_loop p [4..15] hs')"

section \<open>Newborn production (farmer_movement, animal_farmer_movement)\<close>

datatype prototype = newborn_E | newborn_S | newborn_M

text \<open>
  Modelled from the spec: \<open>new_atom\<close> is the host framework's constructor and the
  newborn prototypes are declared in the model file, neither is in the sources. By
  sections 3 and 4.2 of the specification a newborn is created in the newborn age group
  with the health state its prototype names, and creating it does not add it to any pen.
\<close>

definition new_atom :: "prototype \<Rightarrow> animal" where
  "new_atom proto =
     \<lparr>age = Age_Jnb,
      health = (case proto of newborn_E \<Rightarrow> State_E | newborn_S \<Rightarrow> State_S | newborn_M \<Rightarrow> State_M)\<rparr>"

text \<open>
  The random draws made for one sow: \<open>random.random()\<close> of the vertical-transmission
  test and \<open>round(random.gauss(mean_pba, sd_pba))\<close>, an integer of either sign.
\<close>

record sow_draw =
  vert_draw :: real
  pba :: int

definition newborn_prototype :: "parameters \<Rightarrow> animal \<Rightarrow> sow_draw \<Rightarrow> prototype" where
  "newborn_prototype p sow d =
     (if (health sow = State_I \<or> health sow = State_E) \<and> vert_trans p > vert_draw d
      then newborn_E
      else if health sow = State_S then newborn_S
      else newborn_M)"

text \<open>
  The litter of one sow, \<open>[herds[2].new_atom(...) for _ in range(pba)]\<close>;
  \<open>range(pba)\<close> is empty for \<open>pba <= 0\<close>.
\<close>

definition litter :: "parameters \<Rightarrow> animal \<Rightarrow> sow_draw \<Rightarrow> animal list" where
  "litter p sow d = replicate (nat (pba d)) (new_atom (newborn_prototype p sow d))"

text \<open>
  The loop over \<open>farrowing_sows\<close>; \<open>k\<close> numbers the sows, \<open>rng k\<close> are the draws of
  sow \<open>k\<close>.
\<close>

fun newborn_loop ::
  "parameters \<Rightarrow> (nat \<Rightarrow> sow_draw) \<Rightarrow> herds \<Rightarrow> animal list \<Rightarrow> nat \<Rightarrow> animal list
     \<Rightarrow> error + animal list" where
  "newborn_loop p rng hs [] k newborn = Inr newborn"
| "newborn_loop p rng hs (sow # sows) k newborn =
     (case hs 2 of
        None \<Rightarrow> Inl KeyError
      | Some h2 \<Rightarrow>
          if of_int (total_Jnb h2) < K_herd p then
            newborn_loop p rng hs sows (Suc k) (newborn @ litter p sow (rng k))
          else newborn_loop p rng hs sows (Suc k) newborn)"

text \<open>
  From \<open>farrowing_sows = herds[1].select_atoms('age_group', 'F')\<close> to
  \<open>herds[2].add_atoms(newborn)\<close>.
\<close>

definition produce_newborns ::
  "parameters \<Rightarrow> (nat \<Rightarrow> sow_draw) \<Rightarrow> herds \<Rightarrow> error + herds" where
  "produce_newborns p rng hs =
     (case hs 1 of
        None \<Rightarrow> Inl KeyError
      | Some h1 \<Rightarrow>
          (let farrowing_sows = filter (\<lambda>a. age a = Age_F) (animals h1);
               hs1 = hs(1 \<mapsto> h1\<lparr>animals := filter (\<lambda>a. age a \<noteq> Age_F) (animals h1),
                                nb_new_farrowing_sows := int (length farrowing_sows)\<rparr>)
           in case hs1 2 of
                None \<Rightarrow> Inl KeyError
              | Some h2 \<Rightarrow>
                  (let hs2 = hs1(2 \<mapsto> h2\<lparr>animals := animals h2 @ farrowing_sows\<rparr>)
                   in case newborn_loop p rng hs2 farrowing_sows 0 [] of
                        Inl e \<Rightarrow> Inl e
                      | Inr newborn \<Rightarrow>
                          if length newborn \<noteq> 0 then
                            (case hs2 2 of
                               None \<Rightarrow> Inl KeyError
                             | Some h2' \<Rightarrow>
                                 Inr (hs2(2 \<mapsto> h2'\<lparr>animals := animals h2' @ newborn\<rparr>)))
                          else Inr hs2)))"

section \<open>Grower redistribution\<close>

text \<open>
  \<open>n = np.floor(len(growers) / 12)\<close>, set to 1 when it is 0 and to 12 when it exceeds 12;
  \<open>n = 1\<close> for an empty pool.
\<close>

definition nb_parts :: "nat \<Rightarrow> nat" where
  "nb_parts len =
     (if len > 0 then
        (let n = len div 12 in if n = 0 then 1 else if n > 12 then 12 else n)
      else 1)"

text \<open>
  \<open>np.array_split(ary, n)\<close> for an integer \<open>n >= 1\<close>: with
  \<open>(each, extras) = divmod(len(ary), n)\<close> the section sizes are \<open>extras\<close> times
  \<open>each + 1\<close> followed by \<open>n - extras\<close> times \<open>each\<close>, cut off the array in order.
\<close>

fun take_sections :: "nat list \<Rightarrow> 'a list \<Rightarrow> 'a list list" where
  "take_sections [] xs = []"
| "take_sections (k # ks) xs = take k xs # take_sections ks (drop k xs)"

definition section_sizes :: "nat \<Rightarrow> nat \<Rightarrow> nat list" where
  "section_sizes ntotal n =
     replicate (ntotal mod n) (ntotal div n + 1) @ replicate (n - ntotal mod n) (ntotal div n)"

definition array_split :: "'a list \<Rightarrow> nat \<Rightarrow> 'a list list" where
  "array_split ary n = take_sections (section_sizes (length ary) n) ary"

text \<open>\<open>for i, pen in enumerate(pens): herds[i + 4].add_atoms(pen)\<close>.\<close>

fun transfer_pens :: "(nat \<times> animal list) list \<Rightarrow> herds \<Rightarrow> error + herds" where
  "transfer_pens [] hs = Inr hs"
| "transfer_pens ((i, pen) # rest) hs =
     (case hs (int i + 4) of
        None \<Rightarrow> Inl KeyError
      | Some h \<Rightarrow> transfer_pens rest (hs(int i + 4 \<mapsto> h\<lparr>animals := animals h @ pen\<rparr>)))"

definition redistribute_growers :: "animal list \<Rightarrow> herds \<Rightarrow> error + herds" where
  "redistribute_growers growers hs =
     transfer_pens (enumerate 0 (array_split growers (nb_parts (length growers)))) hs"

text \<open>The number of parts of a split that hold at least one individual.\<close>

definition nonempty_parts :: "'a list list \<Rightarrow> nat" where
  "nonempty_parts pens = length (filter (\<lambda>pen. pen \<noteq> []) pens)"

text \<open>The specification's count of parts: clamp(floor(P / 12), 1, 12).\<close>

definition spec_clamp_parts :: "nat \<Rightarrow> nat" where
  "spec_clamp_parts P = max 1 (min 12 (P div 12))"

section \<open>Movement schedule builder (restructure_moves)\<close>

text \<open>
  One parsed record of the movement file. Dates and the step duration are counted in
  the clock's unit, so \<open>(week - origin) // step_duration\<close> is integer floor division.
\<close>

record move_row =
  row_date :: int
  row_source :: int
  row_dest :: int
  row_duration :: real

text \<open>
  The body of the loop for a retained record: the dictionary for \<open>step\<close> and the list
  for \<open>src\<close> are created when missing, then the entry is appended.
\<close>

definition append_move :: "int \<Rightarrow> int \<Rightarrow> int \<times> real \<Rightarrow> schedule \<Rightarrow> schedule" where
  "append_move step src entry moves =
     (let moves1 = (if map_of moves step = None then AList.update step [] moves else moves);
          at_step = (case map_of moves1 step of None \<Rightarrow> [] | Some d \<Rightarrow> d);
          at_step1 = (if map_of at_step src = None then AList.update src [] at_step
                      else at_step);
          entries = (case map_of at_step1 src of None \<Rightarrow> [] | Some l \<Rightarrow> l)
      in AList.update step (AList.update src (entries @ [entry]) at_step1) moves1)"

fun restructure_rows :: "int \<Rightarrow> int \<Rightarrow> move_row list \<Rightarrow> schedule \<Rightarrow> error + schedule" where
  "restructure_rows origin step_duration [] moves = Inr moves"
| "restructure_rows origin step_duration (row # rows) moves =
     (if row_date row < origin then restructure_rows origin step_duration rows moves
      else if step_duration = 0 then Inl ZeroDivisionError
      else restructure_rows origin step_duration rows
             (append_move ((row_date row - origin) div step_duration) (row_source row)
                (row_dest row, row_duration row) moves))"

definition restructure_moves :: "int \<Rightarrow> int \<Rightarrow> move_row list \<Rightarrow> error + schedule" where
  "restructure_moves origin step_duration rows = restructure_rows origin step_duration rows []"

text \<open>\<open>moves[step][source]\<close>, read as the empty list where either key is missing.\<close>

definition moves_at :: "schedule \<Rightarrow> int \<Rightarrow> int \<Rightarrow> (int \<times> real) list" where
  "moves_at moves step src =
     (case map_of moves step of
        None \<Rightarrow> []
      | Some d \<Rightarrow> (case map_of d src of None \<Rightarrow> [] | Some l \<Rightarrow> l))"

text \<open>
  The specification's schedule entry for \<open>(step, src)\<close>: the records on or after the
  origin whose step index is \<open>step\<close> and whose source is \<open>src\<close>, in file order.
\<close>

definition spec_moves_at ::
  "int \<Rightarrow> int \<Rightarrow> move_row list \<Rightarrow> int \<Rightarrow> int \<Rightarrow> (int \<times> real) list" where
  "spec_moves_at origin step_duration rows step src =
     map (\<lambda>r. (row_dest r, row_duration r))
       (filter (\<lambda>r. origin \<le> row_date r
                    \<and> (row_date r - origin) div step_duration = step
                    \<and> row_source r = src) rows)"

section \<open>Preprocessor initialisation\<close>

text \<open>\<open>input_files\<close> is \<open>None\<close> or a dictionary from names to paths.\<close>

definition init_preprocessor :: "(string \<rightharpoonup> string) option \<Rightarrow> error + unit" where
  "init_preprocessor input_files =
     (case input_files of
        None \<Rightarrow> Inl SemanticException
      | Some files \<Rightarrow>
          if files ''trade_file'' = None then Inl SemanticException else Inr ())"

text \<open>
  \<open>run_preprocessor\<close>: the shared entry \<open>moves\<close> is built from the rows of the trade
  file unless it is already there.
\<close>

definition run_preprocessor ::
  "int \<Rightarrow> int \<Rightarrow> move_row list \<Rightarrow> schedule option \<Rightarrow> error + schedule option" where
  "run_preprocessor origin step_duration rows shared_moves =
     (case shared_moves of
        Some m \<Rightarrow> Inr (Some m)
      | None \<Rightarrow>
          (case restructure_moves origin step_duration rows of
             Inl e \<Rightarrow> Inl e
           | Inr m \<Rightarrow> Inr (Some m)))"

text \<open>
  Modelled from the spec: the host framework's driver of a preprocessor is not in the
  sources. By sections 4.1 and 7 of the specification the configuration check is made at
  setup and is fatal, so the schedule is built only after it has passed.
\<close>

definition setup_preprocessor ::
  "(string \<rightharpoonup> string) option \<Rightarrow> int \<Rightarrow> int \<Rightarrow> move_row list \<Rightarrow> schedule option
     \<Rightarrow> error + schedule option" where
  "setup_preprocessor input_files origin step_duration rows shared_moves =
     (case init_preprocessor input_files of
        Inl e \<Rightarrow> Inl e
      | Inr u \<Rightarrow> run_preprocessor origin step_duration rows shared_moves)"

section \<open>External pathway\<close>

text \<open>
  The random draws made for one susceptible pig, in the order of the source; \<open>P2\<close> is the
  biosecurity-success draw (PERT in one file, uniform in the other) and \<open>contact_draw\<close> is
  \<open>np.random.random()\<close>.
\<close>

record ext_draw =
  p_enc :: real
  p_trans :: real
  p_ext_I :: real
  P2 :: real
  contact_draw :: real

definition R_contact :: "ext_draw \<Rightarrow> real" where
  "R_contact d = (p_enc d * p_trans d * p_ext_I d) * (1 - P2 d)"

text \<open>\<open>select_atoms('health_state', 'S')\<close>, as positions in the herd.\<close>

definition select_S :: "animal list \<Rightarrow> nat list" where
  "select_S pigs = filter (\<lambda>i. health (pigs ! i) = State_S) [0..<length pigs]"

text \<open>
  The loop over the susceptible pigs of one herd. \<open>apply_prototype\<close> is the framework's
  state change of one pig, \<open>None\<close> when it raises; the source then calls \<open>quit()\<close>.
  \<open>k\<close> counts the pigs drawn for so far.
\<close>

fun external_pigs ::
  "(animal \<Rightarrow> animal option) \<Rightarrow> (nat \<Rightarrow> ext_draw) \<Rightarrow> nat list \<Rightarrow> nat \<Rightarrow> animal list
     \<Rightarrow> (nat \<times> animal list) outcome" where
  "external_pigs apply_prototype rng [] k pigs = Returns (k, pigs)"
| "external_pigs apply_prototype rng (i # js) k pigs =
     (if contact_draw (rng k) < R_contact (rng k) then
        (case apply_prototype (pigs ! i) of
           None \<Rightarrow> Raises SystemExit (Suc k, pigs)
         | Some pig' \<Rightarrow> external_pigs apply_prototype rng js (Suc k) (pigs[i := pig']))
      else external_pigs apply_prototype rng js (Suc k) pigs)"

fun external_herds ::
  "(animal \<Rightarrow> animal option) \<Rightarrow> (nat \<Rightarrow> ext_draw) \<Rightarrow> int list \<Rightarrow> nat \<Rightarrow> herds
     \<Rightarrow> herds outcome" where
  "external_herds apply_prototype rng [] k hs = Returns hs"
| "external_herds apply_prototype rng (h # rest) k hs =
     (case hs h of
        None \<Rightarrow> Raises KeyError hs
      | Some pen \<Rightarrow>
          (case external_pigs apply_prototype rng (select_S (animals pen)) k (animals pen) of
             Raises e (k', pigs') \<Rightarrow> Raises e (hs(h \<mapsto> pen\<lparr>animals := pigs'\<rparr>))
           | Returns (k', pigs') \<Rightarrow>
               external_herds apply_prototype rng rest k' (hs(h \<mapsto> pen\<lparr>animals := pigs'\<rparr>))))"

definition external_pathway ::
  "(animal \<Rightarrow> animal option) \<Rightarrow> (nat \<Rightarrow> ext_draw) \<Rightarrow> herds \<Rightarrow> herds outcome" where
  "external_pathway apply_prototype rng hs = external_herds apply_prototype rng [0..15] 0 hs"

section \<open>Concrete inputs and the predicates of the claims\<close>

definition pig :: "age_group \<Rightarrow> health_state \<Rightarrow> animal" where
  "pig a h = \<lparr>age = a, health = h\<rparr>"

text \<open>A pen holding the given animals, all state variables 0.\<close>

definition pen_of :: "animal list \<Rightarrow> herd" where
  "pen_of pigs =
     \<lparr>animals = pigs, trans_btwn_pens_frm_movement = 0, nb_of_sampled_I_Jf = 0,
      nb_new_farrowing_sows = 0\<rparr>"

text \<open>The canonical layout: pens 0 to 17, pen \<open>i\<close> holding \<open>f i\<close>.\<close>

definition farm :: "(int \<Rightarrow> animal list) \<Rightarrow> herds" where
  "farm f = (\<lambda>i. if 0 \<le> i \<and> i \<le> 17 then Some (pen_of (f i)) else None)"


definition unit_parameters :: parameters where
  "unit_parameters =
     \<lparr>K_herd = 10, nb_herds = 18, between_herd_trans = 1, neighboring_herd_trans = 1,
      biosec_remove_risky_move = 1, max_bp_trans = 2, min_bp_trans = 1, mean_bp_trans = 1,
      vert_trans = 0\<rparr>"

text \<open>
  The risky-move patterns of the biosecurity override, as the specification lists them.
\<close>

definition risky_move :: "int \<Rightarrow> int \<Rightarrow> bool" where
  "risky_move source dest \<longleftrightarrow>
     (4 \<le> source \<and> source \<le> 15 \<and> 1 \<le> dest \<and> dest \<le> 3)
     \<or> (source = 1 \<and> dest = 2)
     \<or> (source = 3 \<and> 1 \<le> dest \<and> dest \<le> 2)"

text \<open>All of the fattening pens 4 to 15 exist.\<close>

definition fattening_pens_present :: "herds \<Rightarrow> bool" where
  "fattening_pens_present hs \<longleftrightarrow> list_all (\<lambda>i. hs i \<noteq> None) [4..15]"

text \<open>
  A farm for the movement into the fattening pool: pen 3 holds one infectious and one
  susceptible pig, every other pen one susceptible pig.
\<close>

definition entry_farm :: herds where
  "entry_farm =
     farm (\<lambda>i. if i = 3 then [pig Age_Jn State_I, pig Age_Jn State_S]
               else [pig Age_Jf State_S])"

text \<open>
  The claimed count of \<open>nb_of_sampled_I_Jf\<close>: the fattening pens, 4 to 15, whose
  \<open>total_I\<close> is strictly positive.
\<close>

definition infectious_pen :: "herds \<Rightarrow> int \<Rightarrow> bool" where
  "infectious_pen hs i = (case hs i of None \<Rightarrow> False | Some h \<Rightarrow> 0 < total_I h)"

definition count_infectious :: "herds \<Rightarrow> int" where
  "count_infectious hs = int (length (filter (infectious_pen hs) [4..15]))"

text \<open>\<open>herds[4].statevars.nb_of_sampled_I_Jf\<close> (0 for a farm without pen 4).\<close>

definition sampled_of :: "herds \<Rightarrow> int" where
  "sampled_of hs = (case hs 4 of None \<Rightarrow> 0 | Some h \<Rightarrow> nb_of_sampled_I_Jf h)"

text \<open>The animals of each pen, without the state variables.\<close>

definition population :: "herds \<Rightarrow> int \<Rightarrow> animal list option" where
  "population hs i = map_option animals (hs i)"

text \<open>
  A farm with infectious pigs in pens 5 and 9 only, whose counter on pen 4 stands at 7
  before the call.
\<close>

definition sampled_farm :: herds where
  "sampled_farm =
     (farm (\<lambda>i. if i = 5 \<or> i = 9 then [pig Age_Jf State_I] else [pig Age_Jf State_S]))
       (4 \<mapsto> (pen_of [pig Age_Jf State_S])\<lparr>nb_of_sampled_I_Jf := 7\<rparr>)"









text \<open>
  Draws under perfect biosecurity, and a state change that moves a pig to the exposed
  state.
\<close>

definition perfect_draws :: "nat \<Rightarrow> ext_draw" where
  "perfect_draws k = \<lparr>p_enc = 1, p_trans = 1, p_ext_I = 1, P2 = 1, contact_draw = 0\<rparr>"

definition expose :: "animal \<Rightarrow> animal option" where
  "expose a = Some (a\<lparr>health := State_E\<rparr>)"

text \<open>
  Four records with origin 0 and a step of 7: one before the origin, the same move
  twice in step 0, and one move in step 1 between them.
\<close>

definition week_rows :: "move_row list" where
  "week_rows =
     [\<lparr>row_date = - 1, row_source = 3, row_dest = 1, row_duration = 60\<rparr>,
      \<lparr>row_date = 3, row_source = 3, row_dest = 1, row_duration = 5040\<rparr>,
      \<lparr>row_date = 8, row_source = 1, row_dest = 2, row_duration = 10\<rparr>,
      \<lparr>row_date = 3, row_source = 3, row_dest = 1, row_duration = 5040\<rparr>]"

text \<open>A pool of 25 growers: 13 susceptible followed by 12 exposed.\<close>

definition growers25 :: "animal list" where
  "growers25 = replicate 13 (pig Age_Jf State_S) @ replicate 12 (pig Age_Jf State_E)"

text \<open>
  The litters of all the sows of a list, sow number \<open>k\<close> first, one after the other.
\<close>

definition litters :: "parameters \<Rightarrow> (nat \<Rightarrow> sow_draw) \<Rightarrow> nat \<Rightarrow> animal list \<Rightarrow> animal list" where
  "litters p rng k sows = concat (map (\<lambda>(i, sow). litter p sow (rng i)) (enumerate k sows))"

text \<open>Every sow draws a litter of 12.\<close>

definition twelve_draws :: "nat \<Rightarrow> sow_draw" where
  "twelve_draws k = \<lparr>vert_draw = 0, pba = 12\<rparr>"

text \<open>
  A farm whose pen 1 holds two sows due to farrow, one susceptible and one immune; the
  other pens are empty.
\<close>

definition farrowing_farm :: herds where
  "farrowing_farm =
     farm (\<lambda>i. if i = 1 then [pig Age_F State_S, pig Age_F State_M] else [])"

section \<open>Movement transmission: results\<close>

lemma upto_5_15: "[5..15] = [5, 6, 7, 8, 9, 10, 11, 12, 13, 14, (15::int)]"
  by simp

lemma upto_4_15: "[4..15] = [4, 5, 6, 7, 8, 9, 10, 11, 12, 13, 14, (15::int)]"
  by simp

text \<open>
  C1 (the code departs from the claim). One edge from pen 3 into pen 4, lasting a full
  week, on \<open>entry_farm\<close> with \<open>between_herd_trans = 1\<close>: the contribution is 1/2. The
  eleven extra accumulations all land on pen 4, which ends at 12 times the contribution;
  pens 5 to 15 keep their value 0.
\<close>

theorem movement_into_pool_lands_on_pen_4:
  "movement_edge unit_parameters 3 (4, 10080) entry_farm =
     Returns (entry_farm(4 \<mapsto> (pen_of [pig Age_Jf State_S])
                \<lparr>trans_btwn_pens_frm_movement := 12 * (1 / 2)\<rparr>))"
  by (simp add: movement_edge_def bp_trans_raises_def unit_parameters_def
      trans_I_from_source_def entry_farm_def farm_def pen_of_def pig_def total_herd_def
      total_I_def biosec_dur_def add_trans_def upto_5_15)

lemma biosec_dur_risky:
  assumes "risky_move source dest" and "biosec_remove_risky_move p = 1"
  shows "biosec_dur p source dest d = 0"
  using assms unfolding risky_move_def biosec_dur_def by auto

lemma risky_move_distinct: "risky_move source dest \<Longrightarrow> source \<noteq> dest \<and> dest \<noteq> 4"
  unfolding risky_move_def by auto

lemma trans_I_risky:
  assumes "risky_move source dest" and "biosec_remove_risky_move p = 1"
    and "trans_I_from_source p hs source dest dur = Inr t"
  shows "t = 0"
proof (cases "hs source")
  case None
  with assms(3) show ?thesis by (simp add: trans_I_from_source_def)
next
  case (Some hsrc)
  have z: "biosec_dur p source dest (dur / 10080) = 0"
    using assms(1,2) by (rule biosec_dur_risky)
  show ?thesis
  proof (cases "total_herd hsrc > 0 \<and> dest \<noteq> 16 \<and> dest \<noteq> 17")
    case False
    with assms(3) Some show ?thesis by (auto simp add: trans_I_from_source_def)
  next
    case True
    show ?thesis
    proof (cases "source = 4")
      case False
      with assms(3) Some True z show ?thesis by (simp add: trans_I_from_source_def)
    next
      case s4: True
      with assms(3) Some True z show ?thesis
        by (simp add: trans_I_from_source_def split: sum.splits prod.splits)
    qed
  qed
qed

lemma add_trans_zero: "add_trans hs k 0 = Some hs' \<Longrightarrow> hs' = hs"
  by (auto simp: add_trans_def map_upd_triv split: option.splits)

lemma add_trans_None: "add_trans hs k x = None \<longleftrightarrow> hs k = None"
  by (simp add: add_trans_def split: option.splits)

lemma fattening_totals_present:
  "list_all (\<lambda>i. hs i \<noteq> None) js \<Longrightarrow> \<exists>r. fattening_totals hs js ti th = Inr r"
  by (induction js arbitrary: ti th) auto

lemma trans_I_returns:
  assumes "hs source \<noteq> None" and "fattening_pens_present hs"
  shows "\<exists>t. trans_I_from_source p hs source dest dur = Inr t"
proof -
  from assms(1) obtain hsrc where src: "hs source = Some hsrc" by auto
  from assms(2) obtain r where "fattening_totals hs [4..15] 0 0 = Inr r"
    unfolding fattening_pens_present_def using fattening_totals_present by blast
  with src show ?thesis
    by (cases r) (simp add: trans_I_from_source_def Let_def)
qed

text \<open>
  C5. With the biosecurity flag equal to 1, an edge that matches a risky-move pattern
  leaves the herds exactly as they were, whatever its duration and whatever the pens
  hold: no pen's \<open>trans_btwn_pens_frm_movement\<close> changes, also when the edge's
  processing raises. When the gamma parameters are well defined and the source, the
  destination and the fattening pens exist, the edge is processed to its end and returns.
\<close>

theorem risky_move_contributes_zero:
  assumes r: "risky_move source dest"
    and b: "biosec_remove_risky_move p = 1"
  shows "state_of (movement_edge p source (dest, dur) hs) = hs
         \<and> (\<not> bp_trans_raises p \<and> hs source \<noteq> None \<and> hs dest \<noteq> None
                \<and> fattening_pens_present hs
              \<longrightarrow> movement_edge p source (dest, dur) hs = Returns hs)"
proof -
  from r have ne: "source \<noteq> dest" "dest \<noteq> 4" using risky_move_distinct by auto
  have unchanged: "state_of (movement_edge p source (dest, dur) hs) = hs"
  proof (cases "bp_trans_raises p")
    case True
    with ne show ?thesis by (simp add: movement_edge_def)
  next
    case nb: False
    show ?thesis
    proof (cases "trans_I_from_source p hs source dest dur")
      case (Inl e)
      with ne nb show ?thesis by (simp add: movement_edge_def)
    next
      case (Inr t)
      then have t0: "t = 0" using trans_I_risky[OF r b] by blast
      show ?thesis
      proof (cases "add_trans hs dest 0")
        case None
        with ne nb Inr t0 show ?thesis by (simp add: movement_edge_def)
      next
        case (Some hs')
        then have "hs' = hs" by (rule add_trans_zero)
        with Some ne nb Inr t0 show ?thesis by (simp add: movement_edge_def)
      qed
    qed
  qed
  have returns: "\<not> bp_trans_raises p \<and> hs source \<noteq> None \<and> hs dest \<noteq> None
           \<and> fattening_pens_present hs
         \<longrightarrow> movement_edge p source (dest, dur) hs = Returns hs"
  proof
    assume a: "\<not> bp_trans_raises p \<and> hs source \<noteq> None \<and> hs dest \<noteq> None
                 \<and> fattening_pens_present hs"
    then obtain t where t: "trans_I_from_source p hs source dest dur = Inr t"
      using trans_I_returns by blast
    then have t0: "t = 0" using trans_I_risky[OF r b] by blast
    from a obtain hs' where hs': "add_trans hs dest 0 = Some hs'"
      using add_trans_None[of hs dest 0] by auto
    then have "hs' = hs" by (rule add_trans_zero)
    with hs' t t0 a ne show "movement_edge p source (dest, dur) hs = Returns hs"
      by (simp add: movement_edge_def)
  qed
  from unchanged returns show ?thesis by (rule conjI)
qed

text \<open>
  A farm whose pen 5 holds an infectious pig; the edge from pen 5 to pen 2 is risky.
\<close>

theorem risky_move_contributes_zero_witness:
  "risky_move 5 2 \<and> biosec_remove_risky_move unit_parameters = 1
   \<and> movement_edge unit_parameters 5 (2, 10080) (farm (\<lambda>i. [pig Age_Jf State_I]))
       = Returns (farm (\<lambda>i. [pig Age_Jf State_I]))"
proof -
  have r: "risky_move 5 2" by (simp add: risky_move_def)
  have b: "biosec_remove_risky_move unit_parameters = 1" by (simp add: unit_parameters_def)
  have c: "\<not> bp_trans_raises unit_parameters
           \<and> farm (\<lambda>i. [pig Age_Jf State_I]) 5 \<noteq> None
           \<and> farm (\<lambda>i. [pig Age_Jf State_I]) 2 \<noteq> None
           \<and> fattening_pens_present (farm (\<lambda>i. [pig Age_Jf State_I]))"
    by (simp add: bp_trans_raises_def unit_parameters_def farm_def
        fattening_pens_present_def upto_4_15)
  from risky_move_contributes_zero[OF r b, where hs = "farm (\<lambda>i. [pig Age_Jf State_I])"
      and dur = 10080] c r b
  show ?thesis by blast
qed

section \<open>Adjacency transmission: results\<close>

lemma sampled_sum_present:
  "list_all (\<lambda>i. hs (i + 4) \<noteq> None) js \<Longrightarrow>
   sampled_sum hs js acc = Inr (acc + int (length (filter (\<lambda>i. infectious_pen hs (i + 4)) js)))"
  by (induction js arbitrary: acc) (auto simp: infectious_pen_def)

lemma upto_0_11: "[0..11] = [0, 1, 2, 3, 4, 5, 6, 7, 8, 9, 10, (11::int)]"
  by (simp add: upto_rec1)

lemma upto_0_11_shift: "[4..15] = map (\<lambda>i. i + 4) [0..(11::int)]"
  unfolding upto_0_11 by simp

lemma length_filter_shift:
  "length (filter (\<lambda>i. P (i + 4)) [0..(11::int)]) = length (filter P [4..15])"
proof -
  have "filter P (map (\<lambda>i. i + 4) [0..(11::int)]) = map (\<lambda>i. i + 4) (filter (P \<circ> (\<lambda>i. i + 4)) [0..11])"
    by (rule filter_map)
  then have "length (filter P [4..15]) = length (filter (P \<circ> (\<lambda>i. i + 4)) [0..(11::int)])"
    unfolding upto_0_11_shift[symmetric] by simp
  then show ?thesis by (simp add: comp_def)
qed

lemma infectious_pen_upd_sampled:
  "hs k = Some h \<Longrightarrow> infectious_pen (hs(k \<mapsto> h\<lparr>nb_of_sampled_I_Jf := n\<rparr>)) = infectious_pen hs"
  by (rule ext) (simp add: infectious_pen_def total_I_def)

lemma present_shift:
  assumes "fattening_pens_present hs"
  shows "list_all (\<lambda>i. hs (i + 4) \<noteq> None) [0..11]"
proof -
  have "list_all (\<lambda>i. hs i \<noteq> None) (map (\<lambda>i. i + 4) [0..(11::int)])"
    using assms unfolding fattening_pens_present_def upto_0_11_shift .
  then show ?thesis by (simp add: list_all_iff)
qed

lemma count_sampled_present:
  assumes pres: "fattening_pens_present hs" and h4: "hs 4 = Some h4"
  shows "count_sampled hs = Returns (hs(4 \<mapsto> h4\<lparr>nb_of_sampled_I_Jf := count_infectious hs\<rparr>))"
proof -
  let ?hs0 = "hs(4 \<mapsto> h4\<lparr>nb_of_sampled_I_Jf := 0\<rparr>)"
  have "list_all (\<lambda>i. hs (i + 4) \<noteq> None) [0..11]" using pres by (rule present_shift)
  then have p0: "list_all (\<lambda>i. ?hs0 (i + 4) \<noteq> None) [0..11]"
    by (simp add: list_all_iff)
  have inf: "infectious_pen ?hs0 = infectious_pen hs"
    using h4 by (rule infectious_pen_upd_sampled)
  have "sampled_sum ?hs0 [0..11] 0 = Inr (count_infectious hs)"
    unfolding sampled_sum_present[OF p0] inf count_infectious_def length_filter_shift by simp
  then show ?thesis using h4 by (simp add: count_sampled_def Let_def)
qed

lemma set_trans_sampled: "set_trans hs i x = Some hs' \<Longrightarrow> sampled_of hs' = sampled_of hs"
  by (auto simp: set_trans_def sampled_of_def split: option.splits if_splits)

lemma set_trans_dom: "set_trans hs i x = Some hs' \<Longrightarrow> (hs' k = None) = (hs k = None)"
  by (auto simp: set_trans_def split: option.splits if_splits)


lemma set_trans_None: "set_trans hs k x = None \<longleftrightarrow> hs k = None"
  by (simp add: set_trans_def split: option.splits)

lemma pairwise_loop_sampled:
  "sampled_of (state_of (pairwise_loop p js hs)) = sampled_of hs"
proof (induction js arbitrary: hs)
  case Nil
  show ?case by simp
next
  case (Cons i js)
  show ?case
  proof (cases "others_totals hs i [4..15] 0 0")
    case (Inl e)
    then show ?thesis by simp
  next
    case (Inr r)
    obtain ti th where r: "r = (ti, th)" by (cases r)
    let ?x = "neighboring_herd_trans p * (if th \<noteq> 0 then of_int ti / of_int th else 0)"
    show ?thesis
    proof (cases "set_trans hs i ?x")
      case None
      with Inr r show ?thesis by (simp add: Let_def)
    next
      case (Some hs')
      then have "sampled_of hs' = sampled_of hs" by (rule set_trans_sampled)
      with Cons.IH[of hs'] Some Inr r show ?thesis by (simp add: Let_def)
    qed
  qed
qed

lemma others_totals_present:
  "list_all (\<lambda>i. hs i \<noteq> None) js \<Longrightarrow> \<exists>r. others_totals hs i js ti th = Inr r"
  by (induction js arbitrary: ti th) auto

lemma pairwise_loop_returns:
  assumes "fattening_pens_present hs" and "list_all (\<lambda>i. hs i \<noteq> None) js"
  shows "\<exists>hs'. pairwise_loop p js hs = Returns hs'"
  using assms
proof (induction js arbitrary: hs)
  case Nil
  show ?case by simp
next
  case (Cons i js)
  from Cons.prems(1) obtain r where r: "others_totals hs i [4..15] 0 0 = Inr r"
    unfolding fattening_pens_present_def using others_totals_present by blast
  obtain ti th where rr: "r = (ti, th)" by (cases r)
  let ?x = "neighboring_herd_trans p * (if th \<noteq> 0 then of_int ti / of_int th else 0)"
  from Cons.prems(2) have "hs i \<noteq> None" by simp
  then obtain hs' where s: "set_trans hs i ?x = Some hs'"
    using set_trans_None[of hs i ?x] by auto
  have d: "\<And>k. (hs' k = None) = (hs k = None)" using s by (rule set_trans_dom)
  have p1: "fattening_pens_present hs'"
    using Cons.prems(1) unfolding fattening_pens_present_def by (simp add: d list_all_iff)
  have p2: "list_all (\<lambda>i. hs' i \<noteq> None) js"
    using Cons.prems(2) by (simp add: d list_all_iff)
  from Cons.IH[OF p1 p2] r rr s show ?case by (simp add: Let_def)
qed

lemma swIAVs_sampled:
  assumes pres: "fattening_pens_present hs"
  shows "sampled_of (state_of (sample_I_from_fatteners_swIAVs p hs)) = count_infectious hs"
proof -
  from pres obtain h4 where h4: "hs 4 = Some h4"
    unfolding fattening_pens_present_def upto_4_15 by auto
  let ?hs1 = "hs(4 \<mapsto> h4\<lparr>nb_of_sampled_I_Jf := count_infectious hs\<rparr>)"
  have cs: "count_sampled hs = Returns ?hs1" using pres h4 by (rule count_sampled_present)
  have s1: "sampled_of ?hs1 = count_infectious hs" by (simp add: sampled_of_def)
  show ?thesis
    unfolding sample_I_from_fatteners_swIAVs_def cs
    by (simp only: outcome.case pairwise_loop_sampled s1)
qed

lemma swIAVs_returns:
  assumes pres: "fattening_pens_present hs"
  shows "\<exists>hs'. sample_I_from_fatteners_swIAVs p hs = Returns hs'"
proof -
  from pres obtain h4 where h4: "hs 4 = Some h4"
    unfolding fattening_pens_present_def upto_4_15 by auto
  let ?hs1 = "hs(4 \<mapsto> h4\<lparr>nb_of_sampled_I_Jf := count_infectious hs\<rparr>)"
  have cs: "count_sampled hs = Returns ?hs1" using pres h4 by (rule count_sampled_present)
  have p1: "fattening_pens_present ?hs1"
    using pres unfolding fattening_pens_present_def by (simp add: list_all_iff)
  then have p2: "list_all (\<lambda>i. ?hs1 i \<noteq> None) [4..15]" unfolding fattening_pens_present_def .
  from pairwise_loop_returns[OF p1 p2] obtain hs' where
    r: "pairwise_loop p [4..15] ?hs1 = Returns hs'" by blast
  have "sample_I_from_fatteners_swIAVs p hs = Returns hs'"
    unfolding sample_I_from_fatteners_swIAVs_def cs by (simp only: outcome.case r)
  then show ?thesis by blast
qed

lemma count_infectious_upd_sampled:
  assumes "hs 4 = Some h4"
  shows "count_infectious (hs(4 \<mapsto> h4\<lparr>nb_of_sampled_I_Jf := n\<rparr>)) = count_infectious hs"
proof -
  have "infectious_pen (hs(4 \<mapsto> h4\<lparr>nb_of_sampled_I_Jf := n\<rparr>)) = infectious_pen hs"
    using assms by (rule infectious_pen_upd_sampled)
  then show ?thesis by (simp only: count_infectious_def)
qed

text \<open>
  C10. On a farm that has the fattening pens 4 to 15, a call of
  \<open>sample_I_from_fatteners\<close> (\<open>movement_12fatpens_swIAVs.py\<close>) returns, and the counter
  \<open>nb_of_sampled_I_Jf\<close> of pen 4 is then the number of pens 4 to 15 whose \<open>total_I\<close>
  is strictly positive. The value the counter held before the call plays no part: with
  any other value in its place the call leaves the same count. The count lies between 0
  and 12.
\<close>

theorem sampled_counter:
  assumes pres: "fattening_pens_present hs"
  shows "sampled_of (state_of (sample_I_from_fatteners_swIAVs p hs)) = count_infectious hs
       \<and> (\<exists>hs'. sample_I_from_fatteners_swIAVs p hs = Returns hs')
       \<and> (\<forall>h4 n. hs 4 = Some h4 \<longrightarrow>
            sampled_of (state_of (sample_I_from_fatteners_swIAVs p
                (hs(4 \<mapsto> h4\<lparr>nb_of_sampled_I_Jf := n\<rparr>)))) = count_infectious hs)
       \<and> 0 \<le> count_infectious hs \<and> count_infectious hs \<le> 12"
proof -
  have a: "sampled_of (state_of (sample_I_from_fatteners_swIAVs p hs)) = count_infectious hs"
    using pres by (rule swIAVs_sampled)
  have b: "\<exists>hs'. sample_I_from_fatteners_swIAVs p hs = Returns hs'"
    using pres by (rule swIAVs_returns)
  have c: "\<forall>h4 n. hs 4 = Some h4 \<longrightarrow>
            sampled_of (state_of (sample_I_from_fatteners_swIAVs p
                (hs(4 \<mapsto> h4\<lparr>nb_of_sampled_I_Jf := n\<rparr>)))) = count_infectious hs"
  proof (intro allI impI)
    fix h4 n
    assume h4: "hs 4 = Some h4"
    let ?hs2 = "hs(4 \<mapsto> h4\<lparr>nb_of_sampled_I_Jf := n\<rparr>)"
    have p2: "fattening_pens_present ?hs2"
      using pres unfolding fattening_pens_present_def by (simp add: list_all_iff)
    have "sampled_of (state_of (sample_I_from_fatteners_swIAVs p ?hs2)) = count_infectious ?hs2"
      using p2 by (rule swIAVs_sampled)
    moreover have "count_infectious ?hs2 = count_infectious hs"
      using h4 by (rule count_infectious_upd_sampled)
    ultimately show "sampled_of (state_of (sample_I_from_fatteners_swIAVs p ?hs2)) = count_infectious hs"
      by simp
  qed
  have "length (filter (infectious_pen hs) [4..15]) \<le> length [4..(15::int)]"
    by (rule length_filter_le)
  then have d: "0 \<le> count_infectious hs \<and> count_infectious hs \<le> 12"
    unfolding count_infectious_def by (simp add: upto_4_15)
  from a b c d show ?thesis by (intro conjI) simp_all
qed

text \<open>
  On \<open>sampled_farm\<close> the counter stands at 7 before the call and at 2 after it, also
  when it is set to 100 first.
\<close>

theorem sampled_counter_witness:
  "fattening_pens_present sampled_farm
   \<and> sampled_of sampled_farm = 7
   \<and> sampled_of (state_of (sample_I_from_fatteners_swIAVs unit_parameters sampled_farm)) = 2
   \<and> sampled_of (state_of (sample_I_from_fatteners_swIAVs unit_parameters
        (sampled_farm(4 \<mapsto> (pen_of [pig Age_Jf State_S])\<lparr>nb_of_sampled_I_Jf := 100\<rparr>)))) = 2"
proof -
  have p: "fattening_pens_present sampled_farm"
    by (simp add: fattening_pens_present_def sampled_farm_def farm_def upto_4_15)
  have c: "count_infectious sampled_farm = 2"
    by (simp add: count_infectious_def sampled_farm_def farm_def infectious_pen_def
        pen_of_def pig_def total_I_def upto_4_15)
  have s: "sampled_of sampled_farm = 7" by (simp add: sampled_of_def sampled_farm_def)
  have h: "sampled_farm 4 = Some ((pen_of [pig Age_Jf State_S])\<lparr>nb_of_sampled_I_Jf := 7\<rparr>)"
    by (simp add: sampled_farm_def)
  from sampled_counter[OF p, of unit_parameters] h
  have "sampled_of (state_of (sample_I_from_fatteners_swIAVs unit_parameters
          (sampled_farm(4 \<mapsto> (pen_of [pig Age_Jf State_S])\<lparr>nb_of_sampled_I_Jf := 7,
              nb_of_sampled_I_Jf := 100\<rparr>)))) = count_infectious sampled_farm"
    by blast
  then have k: "sampled_of (state_of (sample_I_from_fatteners_swIAVs unit_parameters
          (sampled_farm(4 \<mapsto> (pen_of [pig Age_Jf State_S])\<lparr>nb_of_sampled_I_Jf := 100\<rparr>)))) = 2"
    by (simp add: c)
  from sampled_counter[OF p, of unit_parameters] p c s k show ?thesis by simp
qed



lemma present_mem:
  assumes "fattening_pens_present hs" and "4 \<le> i" and "i \<le> 15"
  shows "hs i \<noteq> None"
proof -
  from assms(1) have "\<forall>i\<in>{4..15}. hs i \<noteq> None"
    unfolding fattening_pens_present_def list_all_iff set_upto .
  then show ?thesis using assms(2,3) by simp
qed

section \<open>Zero-population denominators: results\<close>





























section \<open>Preprocessor and external pathway: results\<close>

text \<open>
  C9. \<open>init_preprocessor\<close> raises \<open>SemanticException\<close> exactly when
  \<open>input_files\<close> is \<open>None\<close> or has no key \<open>trade_file\<close>; it raises nothing else.
  When it raises, setting the preprocessor up ends with that exception whatever the
  file holds and whatever is already shared: no schedule is built.
\<close>

theorem init_preprocessor_fails_iff:
  "(init_preprocessor input_files = Inl SemanticException
      \<longleftrightarrow> input_files = None
          \<or> (\<exists>files. input_files = Some files \<and> ''trade_file'' \<notin> dom files))
   \<and> (init_preprocessor input_files = Inl SemanticException
        \<or> init_preprocessor input_files = Inr ())
   \<and> (init_preprocessor input_files = Inl SemanticException
        \<longrightarrow> setup_preprocessor input_files origin step_duration rows shared_moves
              = Inl SemanticException)"
  by (cases input_files) (auto simp: init_preprocessor_def setup_preprocessor_def domIff)

theorem init_preprocessor_fails_iff_witness:
  "init_preprocessor None = Inl SemanticException
   \<and> init_preprocessor (Some Map.empty) = Inl SemanticException
   \<and> init_preprocessor (Some [''trade_file'' \<mapsto> ''moves.csv'']) = Inr ()
   \<and> setup_preprocessor None 0 7
        [\<lparr>row_date = 3, row_source = 3, row_dest = 1, row_duration = 5040\<rparr>] None
       = Inl SemanticException"
proof -
  have a: "init_preprocessor None = Inl SemanticException"
    by (simp add: init_preprocessor_def)
  have b: "init_preprocessor (Some Map.empty) = Inl SemanticException"
    by (simp add: init_preprocessor_def)
  have c: "init_preprocessor (Some [''trade_file'' \<mapsto> ''moves.csv'']) = Inr ()"
    by (simp add: init_preprocessor_def)
  from init_preprocessor_fails_iff[of None 0 7
      "[\<lparr>row_date = 3, row_source = 3, row_dest = 1, row_duration = 5040\<rparr>]" None] a
  have "setup_preprocessor None 0 7
        [\<lparr>row_date = 3, row_source = 3, row_dest = 1, row_duration = 5040\<rparr>] None
       = Inl SemanticException" by blast
  with a b c show ?thesis by blast
qed

lemma external_pigs_none:
  assumes "\<forall>k. P2 (rng k) = 1" and "\<forall>k. 0 \<le> contact_draw (rng k)"
  shows "external_pigs ap rng js k pigs = Returns (k + length js, pigs)"
proof (induction js arbitrary: k)
  case Nil
  show ?case by simp
next
  case (Cons i js)
  have "R_contact (rng k) = 0" using assms(1) by (simp add: R_contact_def)
  then have "\<not> contact_draw (rng k) < R_contact (rng k)" using assms(2) by (simp add: not_less)
  then show ?case using Cons.IH[of "Suc k"] by simp
qed

lemma external_herds_none:
  assumes "\<forall>k. P2 (rng k) = 1" and "\<forall>k. 0 \<le> contact_draw (rng k)"
  shows "state_of (external_herds ap rng hl k hs) = hs
       \<and> (list_all (\<lambda>h. hs h \<noteq> None) hl \<longrightarrow> external_herds ap rng hl k hs = Returns hs)"
proof (induction hl arbitrary: k)
  case Nil
  show ?case by simp
next
  case (Cons h hl)
  show ?case
  proof (cases "hs h")
    case None
    then show ?thesis by simp
  next
    case (Some pen)
    have u: "hs(h \<mapsto> pen) = hs" using Some by (rule map_upd_triv)
    show ?thesis
      using Some Cons.IH[of "k + length (select_S (animals pen))"]
      by (simp add: external_pigs_none[OF assms] u)
  qed
qed

text \<open>
  C8. When every biosecurity-success draw \<open>P2\<close> equals 1 (and every
  \<open>np.random.random()\<close> draw is at least 0), the contact risk of every draw is 0, the
  infection branch is never taken and \<open>external_pathway\<close> leaves the herds as they
  were, whatever the other draws and whatever \<open>apply_prototype\<close> would do; on a farm
  that has pens 0 to 15 it returns.
\<close>

theorem external_pathway_perfect_biosecurity:
  assumes "\<forall>k. P2 (rng k) = 1" and "\<forall>k. 0 \<le> contact_draw (rng k)"
  shows "(\<forall>k. R_contact (rng k) = 0)
       \<and> state_of (external_pathway apply_prototype rng hs) = hs
       \<and> (list_all (\<lambda>h. hs h \<noteq> None) [0..15]
            \<longrightarrow> external_pathway apply_prototype rng hs = Returns hs)"
proof -
  have "\<forall>k. R_contact (rng k) = 0" using assms(1) by (simp add: R_contact_def)
  with external_herds_none[OF assms, of apply_prototype "[0..15]" 0 hs]
  show ?thesis unfolding external_pathway_def by blast
qed

theorem external_pathway_perfect_biosecurity_witness:
  "(\<forall>k. P2 (perfect_draws k) = 1) \<and> (\<forall>k. 0 \<le> contact_draw (perfect_draws k))
   \<and> external_pathway expose perfect_draws (farm (\<lambda>i. [pig Age_Jf State_S]))
       = Returns (farm (\<lambda>i. [pig Age_Jf State_S]))"
proof -
  have a: "\<forall>k. P2 (perfect_draws k) = 1" by (simp add: perfect_draws_def)
  have b: "\<forall>k. 0 \<le> contact_draw (perfect_draws k)" by (simp add: perfect_draws_def)
  have c: "list_all (\<lambda>h. farm (\<lambda>i. [pig Age_Jf State_S]) h \<noteq> None) [0..15]"
    by (simp add: farm_def list_all_iff)
  from external_pathway_perfect_biosecurity[OF a b, of expose "farm (\<lambda>i. [pig Age_Jf State_S])"] a b c
  show ?thesis by blast
qed

section \<open>Movement schedule builder: results\<close>

lemma moves_at_append_move:
  "moves_at (append_move step src e m) step' src'
     = (if step' = step \<and> src' = src then moves_at m step src @ [e]
        else moves_at m step' src')"
  by (auto simp: append_move_def moves_at_def Let_def AList.update_conv'
      split: option.splits)

lemma dom_append_move:
  "dom (map_of (append_move step src e m)) = insert step (dom (map_of m))"
  by (auto simp: append_move_def Let_def AList.update_conv' split: if_splits)

lemma spec_moves_at_Cons:
  "spec_moves_at origin sd (r # rows) step src
     = (if origin \<le> row_date r \<and> (row_date r - origin) div sd = step \<and> row_source r = src
        then (row_dest r, row_duration r) # spec_moves_at origin sd rows step src
        else spec_moves_at origin sd rows step src)"
  by (simp add: spec_moves_at_def)

lemma restructure_rows_spec:
  assumes "sd \<noteq> 0"
  shows "\<exists>m'. restructure_rows origin sd rows m = Inr m'
     \<and> (\<forall>step src. moves_at m' step src
           = moves_at m step src @ spec_moves_at origin sd rows step src)
     \<and> dom (map_of m')
         = dom (map_of m)
           \<union> {(row_date r - origin) div sd | r. r \<in> set rows \<and> origin \<le> row_date r}"
proof (induction rows arbitrary: m)
  case Nil
  show ?case by (simp add: spec_moves_at_def)
next
  case (Cons r rows)
  show ?case
  proof (cases "row_date r < origin")
    case True
    from Cons.IH[of m] obtain m' where
      a: "restructure_rows origin sd rows m = Inr m'"
      and b: "\<forall>step src. moves_at m' step src
           = moves_at m step src @ spec_moves_at origin sd rows step src"
      and c: "dom (map_of m')
         = dom (map_of m)
           \<union> {(row_date r - origin) div sd | r. r \<in> set rows \<and> origin \<le> row_date r}"
      by blast
    have c': "dom (map_of m')
         = dom (map_of m)
           \<union> {(row_date x - origin) div sd | x. x \<in> set (r # rows) \<and> origin \<le> row_date x}"
      unfolding c using True by auto
    from a b c' True show ?thesis by (simp add: spec_moves_at_Cons)
  next
    case False
    let ?m1 = "append_move ((row_date r - origin) div sd) (row_source r)
                (row_dest r, row_duration r) m"
    from Cons.IH[of ?m1] obtain m' where
      a: "restructure_rows origin sd rows ?m1 = Inr m'"
      and b: "\<forall>step src. moves_at m' step src
           = moves_at ?m1 step src @ spec_moves_at origin sd rows step src"
      and c: "dom (map_of m')
         = dom (map_of ?m1)
           \<union> {(row_date r - origin) div sd | r. r \<in> set rows \<and> origin \<le> row_date r}"
      by blast
    have c': "dom (map_of m')
         = dom (map_of m)
           \<union> {(row_date x - origin) div sd | x. x \<in> set (r # rows) \<and> origin \<le> row_date x}"
      unfolding c dom_append_move using False by auto
    have b': "\<forall>step src. moves_at m' step src
           = moves_at m step src @ spec_moves_at origin sd (r # rows) step src"
      using b False by (simp add: moves_at_append_move spec_moves_at_Cons)
    from a b' c' False assms show ?thesis by simp
  qed
qed

text \<open>
  C7. With a step duration other than 0 the builder returns a schedule whose list for
  every \<open>(step, source)\<close> is exactly the records of the file that are dated on or
  after the origin, have step index \<open>(date - origin) div step_duration\<close> equal to
  \<open>step\<close> and have that source, in file order and with repetitions kept. So no
  record before the origin is in the schedule, and a step is a key of the schedule
  exactly when some retained record falls into it.
\<close>

theorem restructure_moves_schedule:
  assumes "step_duration \<noteq> 0"
  shows "\<exists>moves. restructure_moves origin step_duration rows = Inr moves
     \<and> (\<forall>step src. moves_at moves step src
           = spec_moves_at origin step_duration rows step src)
     \<and> (\<forall>step. (map_of moves step \<noteq> None)
           = (\<exists>r. r \<in> set rows \<and> origin \<le> row_date r
                  \<and> (row_date r - origin) div step_duration = step))"
proof -
  from restructure_rows_spec[OF assms, of origin rows "[]"] obtain moves where
    a: "restructure_rows origin step_duration rows [] = Inr moves"
    and b: "\<forall>step src. moves_at moves step src
           = moves_at [] step src @ spec_moves_at origin step_duration rows step src"
    and c: "dom (map_of moves)
         = dom (map_of ([]::schedule))
           \<union> {(row_date r - origin) div step_duration | r. r \<in> set rows \<and> origin \<le> row_date r}"
    by blast
  from b have b': "\<forall>step src. moves_at moves step src
           = spec_moves_at origin step_duration rows step src"
    by (simp add: moves_at_def)
  have c': "\<forall>step. (map_of moves step \<noteq> None)
           = (\<exists>r. r \<in> set rows \<and> origin \<le> row_date r
                  \<and> (row_date r - origin) div step_duration = step)"
  proof
    fix step
    have "(map_of moves step \<noteq> None) = (step \<in> dom (map_of moves))" by (simp add: domIff)
    also have "\<dots> = (\<exists>r. r \<in> set rows \<and> origin \<le> row_date r
                  \<and> (row_date r - origin) div step_duration = step)"
      unfolding c by auto
    finally show "(map_of moves step \<noteq> None)
           = (\<exists>r. r \<in> set rows \<and> origin \<le> row_date r
                  \<and> (row_date r - origin) div step_duration = step)" .
  qed
  from a b' c' show ?thesis unfolding restructure_moves_def by blast
qed

theorem restructure_moves_schedule_witness:
  "(7::int) \<noteq> 0
   \<and> (\<exists>moves. restructure_moves 0 7 week_rows = Inr moves
         \<and> moves_at moves 0 3 = [(1, 5040), (1, 5040)]
         \<and> moves_at moves 1 1 = [(2, 10)]
         \<and> map_of moves (- 1) = None)"
proof -
  have n: "(7::int) \<noteq> 0" by simp
  have s03: "spec_moves_at 0 7 week_rows 0 3 = [(1, 5040), (1, 5040)]"
    by (simp add: spec_moves_at_def week_rows_def)
  have s11: "spec_moves_at 0 7 week_rows 1 1 = [(2, 10)]"
    by (simp add: spec_moves_at_def week_rows_def)
  have nk: "\<not> (\<exists>r. r \<in> set week_rows \<and> 0 \<le> row_date r \<and> (row_date r - 0) div 7 = - 1)"
    by (auto simp: week_rows_def)
  from restructure_moves_schedule[OF n, of 0 week_rows] obtain moves where
    a: "restructure_moves 0 7 week_rows = Inr moves"
    and b: "\<forall>step src. moves_at moves step src = spec_moves_at 0 7 week_rows step src"
    and c: "\<forall>step. (map_of moves step \<noteq> None)
           = (\<exists>r. r \<in> set week_rows \<and> 0 \<le> row_date r \<and> (row_date r - 0) div 7 = step)"
    by blast
  from c nk have "map_of moves (- 1) = None" by blast
  with a b s03 s11 n show ?thesis by auto
qed

text \<open>The schedule built from \<open>week_rows\<close>, evaluated.\<close>

lemma restructure_moves_week_rows: "restructure_moves 0 7 week_rows
   = Inr [(0, [(3, [(1, 5040), (1, 5040)])]), (1, [(1, [(2, 10)])])]"
  by (simp add: restructure_moves_def week_rows_def append_move_def Let_def)

section \<open>Grower redistribution: results\<close>

lemma nb_parts_clamp: "nb_parts P = spec_clamp_parts P"
  by (auto simp: nb_parts_def spec_clamp_parts_def Let_def max_def min_def)

lemma nb_parts_pos: "0 < nb_parts P"
  by (auto simp: nb_parts_def Let_def)

lemma nb_parts_le: "nb_parts P \<le> 12"
  by (auto simp: nb_parts_def Let_def)

lemma length_take_sections: "length (take_sections ks xs) = length ks"
  by (induction ks arbitrary: xs) auto

lemma concat_take_sections: "concat (take_sections ks xs) = take (sum_list ks) xs"
  by (induction ks arbitrary: xs) (auto simp: take_add)

lemma map_length_take_sections:
  "sum_list ks \<le> length xs \<Longrightarrow> map length (take_sections ks xs) = ks"
  by (induction ks arbitrary: xs) auto

lemma sum_section_sizes:
  assumes "0 < n"
  shows "sum_list (section_sizes P n) = P"
proof -
  have r: "P mod n \<le> n" using assms by simp
  have "(P mod n) * (P div n + 1) + (n - P mod n) * (P div n)
          = P mod n + (P mod n + (n - P mod n)) * (P div n)"
    by (simp add: algebra_simps)
  also have "\<dots> = P mod n + n * (P div n)" using r by simp
  also have "\<dots> = P" by simp
  finally show ?thesis by (simp add: section_sizes_def sum_list_replicate)
qed

lemma length_section_sizes: "0 < n \<Longrightarrow> length (section_sizes P n) = n"
  by (simp add: section_sizes_def)

lemma set_section_sizes: "k \<in> set (section_sizes P n) \<Longrightarrow> k = P div n \<or> k = P div n + 1"
  by (auto simp: section_sizes_def)

lemma length_array_split: "0 < n \<Longrightarrow> length (array_split xs n) = n"
  by (simp add: array_split_def length_take_sections length_section_sizes)

lemma concat_array_split: "0 < n \<Longrightarrow> concat (array_split xs n) = xs"
  by (simp add: array_split_def concat_take_sections sum_section_sizes)

lemma map_length_array_split:
  "0 < n \<Longrightarrow> map length (array_split xs n) = section_sizes (length xs) n"
  by (simp add: array_split_def map_length_take_sections sum_section_sizes)

lemma part_sizes:
  assumes "0 < n" and "pen \<in> set (array_split xs n)"
  shows "length pen = length xs div n \<or> length pen = length xs div n + 1"
proof -
  from assms(2) have "length pen \<in> set (map length (array_split xs n))" by simp
  then have "length pen \<in> set (section_sizes (length xs) n)"
    unfolding map_length_array_split[OF assms(1)] .
  then show ?thesis by (rule set_section_sizes)
qed

lemma share_pos:
  assumes "0 < P"
  shows "0 < P div nb_parts P"
proof (cases "P div 12 = 0")
  case True
  with assms show ?thesis by (simp add: nb_parts_def Let_def)
next
  case False
  have "nb_parts P \<le> P div 12" using False assms by (auto simp: nb_parts_def Let_def)
  then have "nb_parts P * 12 \<le> P div 12 * 12" by simp
  also have "\<dots> \<le> P" by simp
  finally have "nb_parts P * 1 \<le> P" by simp
  then have "nb_parts P \<le> P" by simp
  then show ?thesis using nb_parts_pos[of P] by (simp add: div_greater_zero_iff)
qed

lemma nonempty_parts_all:
  assumes "\<forall>pen \<in> set pens. pen \<noteq> []"
  shows "nonempty_parts pens = length pens"
  using assms by (simp add: nonempty_parts_def)

lemma nonempty_redistribution:
  assumes "0 < length growers"
  shows "nonempty_parts (array_split growers (nb_parts (length growers)))
           = spec_clamp_parts (length growers)"
proof -
  let ?n = "nb_parts (length growers)"
  have n: "0 < ?n" by (rule nb_parts_pos)
  have "\<forall>pen \<in> set (array_split growers ?n). pen \<noteq> []"
  proof
    fix pen assume "pen \<in> set (array_split growers ?n)"
    with n have "length pen = length growers div ?n \<or> length pen = length growers div ?n + 1"
      by (rule part_sizes)
    with share_pos[OF assms] have "0 < length pen" by auto
    then show "pen \<noteq> []" by simp
  qed
  then have "nonempty_parts (array_split growers ?n) = length (array_split growers ?n)"
    by (rule nonempty_parts_all)
  then show ?thesis using length_array_split[OF n, of growers] nb_parts_clamp[of "length growers"]
    by simp
qed

lemma empty_redistribution:
  "array_split ([]::'a list) (nb_parts 0) = [[]]"
  by (simp add: array_split_def section_sizes_def nb_parts_def)

text \<open>
  C6, as the claim states it, fails for the empty pool: the split is one empty part, so
  no pen receives a non-empty part, while clamp(floor(0 / 12), 1, 12) is 1.
\<close>

theorem grower_redistribution_counterexample:
  "nonempty_parts (array_split ([]::animal list) (nb_parts (length ([]::animal list)))) = 0
   \<and> spec_clamp_parts (length ([]::animal list)) = 1"
  by (simp add: array_split_def section_sizes_def nb_parts_def nonempty_parts_def
      spec_clamp_parts_def)

lemma transfer_pens_enumerate:
  assumes "\<forall>i<length pens. hs (int (k + i) + 4) \<noteq> None"
  shows "\<exists>hs'. transfer_pens (enumerate k pens) hs = Inr hs'
     \<and> (\<forall>i<length pens. population hs' (int (k + i) + 4)
            = map_option (\<lambda>xs. xs @ pens ! i) (population hs (int (k + i) + 4)))
     \<and> (\<forall>j. j < int k + 4 \<or> int (k + length pens) + 4 \<le> j \<longrightarrow> hs' j = hs j)"
  using assms
proof (induction pens arbitrary: k hs)
  case Nil
  show ?case by simp
next
  case (Cons pen pens)
  from Cons.prems have "hs (int (k + 0) + 4) \<noteq> None" by blast
  then obtain h where h: "hs (int k + 4) = Some h" by auto
  let ?hs1 = "hs(int k + 4 \<mapsto> h\<lparr>animals := animals h @ pen\<rparr>)"
  have pres1: "\<forall>i<length pens. ?hs1 (int (Suc k + i) + 4) \<noteq> None"
  proof (intro allI impI)
    fix i assume "i < length pens"
    then have "Suc i < length (pen # pens)" by simp
    with Cons.prems have "hs (int (k + Suc i) + 4) \<noteq> None" by blast
    then show "?hs1 (int (Suc k + i) + 4) \<noteq> None" by simp
  qed
  from Cons.IH[OF pres1] obtain hs' where
    r: "transfer_pens (enumerate (Suc k) pens) ?hs1 = Inr hs'"
    and a: "\<forall>i<length pens. population hs' (int (Suc k + i) + 4)
            = map_option (\<lambda>xs. xs @ pens ! i) (population ?hs1 (int (Suc k + i) + 4))"
    and b: "\<forall>j. j < int (Suc k) + 4 \<or> int (Suc k + length pens) + 4 \<le> j \<longrightarrow> hs' j = ?hs1 j"
    by blast
  have ret: "transfer_pens (enumerate k (pen # pens)) hs = Inr hs'"
    using h r by simp
  have a': "\<forall>i<length (pen # pens). population hs' (int (k + i) + 4)
            = map_option (\<lambda>xs. xs @ (pen # pens) ! i) (population hs (int (k + i) + 4))"
  proof (intro allI impI)
    fix i assume i: "i < length (pen # pens)"
    show "population hs' (int (k + i) + 4)
            = map_option (\<lambda>xs. xs @ (pen # pens) ! i) (population hs (int (k + i) + 4))"
    proof (cases i)
      case 0
      have "hs' (int k + 4) = ?hs1 (int k + 4)" using b by simp
      with 0 h show ?thesis by (simp add: population_def)
    next
      case (Suc i')
      with i have i': "i' < length pens" by simp
      have ne: "int (Suc k + i') + 4 \<noteq> int k + 4" by simp
      from a i' have "population hs' (int (Suc k + i') + 4)
            = map_option (\<lambda>xs. xs @ pens ! i') (population ?hs1 (int (Suc k + i') + 4))" by blast
      also have "population ?hs1 (int (Suc k + i') + 4) = population hs (int (Suc k + i') + 4)"
        using ne by (simp add: population_def)
      finally show ?thesis using Suc by simp
    qed
  qed
  have b': "\<forall>j. j < int k + 4 \<or> int (k + length (pen # pens)) + 4 \<le> j \<longrightarrow> hs' j = hs j"
  proof (intro allI impI)
    fix j assume j: "j < int k + 4 \<or> int (k + length (pen # pens)) + 4 \<le> j"
    then have "j < int (Suc k) + 4 \<or> int (Suc k + length pens) + 4 \<le> j" by auto
    with b have "hs' j = ?hs1 j" by blast
    moreover from j have "j \<noteq> int k + 4" by auto
    ultimately show "hs' j = hs j" by simp
  qed
  from ret a' b' show ?case by blast
qed

text \<open>
  C6, amended. For every pool the number of parts is clamp(floor(P / 12), 1, 12); the
  parts are contiguous and in pool order (their concatenation is the pool, so the split
  neither drops nor duplicates an individual) and near-equal (each has
  \<open>P div n\<close> or \<open>P div n + 1\<close> members). For a pool that is not empty every part
  is non-empty, so the number of non-empty parts is the clamp; the empty pool is split
  into one empty part. On a farm that has the fattening pens, part \<open>i\<close> is appended to
  the animals of pen \<open>4 + i\<close> and every other pen is left as it was.
\<close>

theorem grower_redistribution_amended:
  "nb_parts (length growers) = spec_clamp_parts (length growers)
   \<and> length (array_split growers (nb_parts (length growers))) = spec_clamp_parts (length growers)
   \<and> concat (array_split growers (nb_parts (length growers))) = growers
   \<and> (\<forall>pen \<in> set (array_split growers (nb_parts (length growers))).
         length pen = length growers div nb_parts (length growers)
         \<or> length pen = length growers div nb_parts (length growers) + 1)
   \<and> (0 < length growers \<longrightarrow>
         nonempty_parts (array_split growers (nb_parts (length growers)))
           = spec_clamp_parts (length growers))
   \<and> (length growers = 0 \<longrightarrow>
         array_split growers (nb_parts (length growers)) = [[]])
   \<and> (fattening_pens_present hs \<longrightarrow>
         (\<exists>hs'. redistribute_growers growers hs = Inr hs'
            \<and> (\<forall>i<nb_parts (length growers). population hs' (int i + 4)
                  = map_option (\<lambda>xs. xs @ array_split growers (nb_parts (length growers)) ! i)
                      (population hs (int i + 4)))
            \<and> (\<forall>j. j < 4 \<or> int (nb_parts (length growers)) + 4 \<le> j \<longrightarrow> hs' j = hs j)))"
proof -
  let ?n = "nb_parts (length growers)"
  let ?pens = "array_split growers ?n"
  have n: "0 < ?n" by (rule nb_parts_pos)
  have c1: "?n = spec_clamp_parts (length growers)" by (rule nb_parts_clamp)
  have len: "length ?pens = ?n" using n by (rule length_array_split)
  have c2: "length ?pens = spec_clamp_parts (length growers)" using len c1 by simp
  have c3: "concat ?pens = growers" using n by (rule concat_array_split)
  have c4: "\<forall>pen \<in> set ?pens. length pen = length growers div ?n
              \<or> length pen = length growers div ?n + 1"
    using part_sizes[OF n] by blast
  have c5: "0 < length growers \<longrightarrow> nonempty_parts ?pens = spec_clamp_parts (length growers)"
    by (rule impI) (rule nonempty_redistribution)
  have c6: "length growers = 0 \<longrightarrow> ?pens = [[]]"
    using empty_redistribution by auto
  have c7: "fattening_pens_present hs \<longrightarrow>
         (\<exists>hs'. redistribute_growers growers hs = Inr hs'
            \<and> (\<forall>i<?n. population hs' (int i + 4)
                  = map_option (\<lambda>xs. xs @ ?pens ! i) (population hs (int i + 4)))
            \<and> (\<forall>j. j < 4 \<or> int ?n + 4 \<le> j \<longrightarrow> hs' j = hs j))"
  proof
    assume pres: "fattening_pens_present hs"
    have "\<forall>i<length ?pens. hs (int (0 + i) + 4) \<noteq> None"
    proof (intro allI impI)
      fix i assume "i < length ?pens"
      then have "i < 12" using len nb_parts_le[of "length growers"] by simp
      then have "4 \<le> int (0 + i) + 4" "int (0 + i) + 4 \<le> 15" by simp_all
      with pres show "hs (int (0 + i) + 4) \<noteq> None" by (rule present_mem)
    qed
    from transfer_pens_enumerate[OF this] obtain hs' where
      r: "transfer_pens (enumerate 0 ?pens) hs = Inr hs'"
      and a: "\<forall>i<length ?pens. population hs' (int (0 + i) + 4)
            = map_option (\<lambda>xs. xs @ ?pens ! i) (population hs (int (0 + i) + 4))"
      and b: "\<forall>j. j < int 0 + 4 \<or> int (0 + length ?pens) + 4 \<le> j \<longrightarrow> hs' j = hs j"
      by blast
    from r have r': "redistribute_growers growers hs = Inr hs'"
      by (simp add: redistribute_growers_def)
    from a have a': "\<forall>i<?n. population hs' (int i + 4)
                  = map_option (\<lambda>xs. xs @ ?pens ! i) (population hs (int i + 4))"
      unfolding len by simp
    from b have b': "\<forall>j. j < 4 \<or> int ?n + 4 \<le> j \<longrightarrow> hs' j = hs j"
      unfolding len by simp
    from r' a' b' show "\<exists>hs'. redistribute_growers growers hs = Inr hs'
            \<and> (\<forall>i<?n. population hs' (int i + 4)
                  = map_option (\<lambda>xs. xs @ ?pens ! i) (population hs (int i + 4)))
            \<and> (\<forall>j. j < 4 \<or> int ?n + 4 \<le> j \<longrightarrow> hs' j = hs j)" by blast
  qed
  show ?thesis by (intro conjI c1 c2 c3 c4 c5 c6 c7)
qed

lemma growers25_split:
  "array_split growers25 (nb_parts (length growers25))
     = [replicate 13 (pig Age_Jf State_S), replicate 12 (pig Age_Jf State_E)]"
  by code_simp

theorem grower_redistribution_amended_witness:
  "0 < length growers25 \<and> fattening_pens_present (farm (\<lambda>i. []))
   \<and> spec_clamp_parts (length growers25) = 2
   \<and> nonempty_parts (array_split growers25 (nb_parts (length growers25))) = 2
   \<and> (\<exists>hs'. redistribute_growers growers25 (farm (\<lambda>i. [])) = Inr hs'
         \<and> population hs' 4 = Some (replicate 13 (pig Age_Jf State_S))
         \<and> population hs' 5 = Some (replicate 12 (pig Age_Jf State_E))
         \<and> hs' 6 = farm (\<lambda>i. []) 6)"
proof -
  have l: "0 < length growers25" by (simp add: growers25_def)
  have p: "fattening_pens_present (farm (\<lambda>i. []))"
    by (simp add: fattening_pens_present_def farm_def upto_4_15)
  have c: "spec_clamp_parts (length growers25) = 2"
    by (simp add: growers25_def spec_clamp_parts_def)
  have n: "nb_parts (length growers25) = 2"
    by (simp add: growers25_def nb_parts_def)
  have p4: "population (farm (\<lambda>i. [])) (int 0 + 4) = Some []"
    by (simp add: population_def farm_def pen_of_def)
  have p5: "population (farm (\<lambda>i. [])) (int 1 + 4) = Some []"
    by (simp add: population_def farm_def pen_of_def)
  note t = grower_redistribution_amended[of growers25 "farm (\<lambda>i. [])"]
  from t have "0 < length growers25 \<longrightarrow>
      nonempty_parts (array_split growers25 (nb_parts (length growers25)))
        = spec_clamp_parts (length growers25)" by blast
  with l c have ne: "nonempty_parts (array_split growers25 (nb_parts (length growers25))) = 2"
    by simp
  from t p obtain hs' where
    r: "redistribute_growers growers25 (farm (\<lambda>i. [])) = Inr hs'"
    and a: "\<forall>i<nb_parts (length growers25). population hs' (int i + 4)
                  = map_option (\<lambda>xs. xs @ array_split growers25 (nb_parts (length growers25)) ! i)
                      (population (farm (\<lambda>i. [])) (int i + 4))"
    and b: "\<forall>j. j < 4 \<or> int (nb_parts (length growers25)) + 4 \<le> j \<longrightarrow> hs' j = farm (\<lambda>i. []) j"
    by blast
  have i0: "(0::nat) < nb_parts (length growers25)" unfolding n by simp
  have i1: "(1::nat) < nb_parts (length growers25)" unfolding n by simp
  from a i0 have "population hs' (int 0 + 4)
       = map_option (\<lambda>xs. xs @ array_split growers25 (nb_parts (length growers25)) ! 0)
           (population (farm (\<lambda>i. [])) (int 0 + 4))"
    by blast
  then have r4: "population hs' 4 = Some (replicate 13 (pig Age_Jf State_S))"
    unfolding p4 growers25_split by simp
  from a i1 have "population hs' (int 1 + 4)
       = map_option (\<lambda>xs. xs @ array_split growers25 (nb_parts (length growers25)) ! 1)
           (population (farm (\<lambda>i. [])) (int 1 + 4))"
    by blast
  then have r5: "population hs' 5 = Some (replicate 12 (pig Age_Jf State_E))"
    unfolding p5 growers25_split by simp
  from b have r6: "hs' 6 = farm (\<lambda>i. []) 6" unfolding n by simp
  from l p c ne r r4 r5 r6 show ?thesis by blast
qed

section \<open>Newborn production: results\<close>

lemma newborn_loop_open:
  assumes "hs 2 = Some h2" and "of_int (total_Jnb h2) < K_herd p"
  shows "newborn_loop p rng hs sows k acc = Inr (acc @ litters p rng k sows)"
  using assms
  by (induction sows arbitrary: k acc) (simp_all add: litters_def)

lemma newborn_loop_closed:
  assumes "hs 2 = Some h2" and "\<not> of_int (total_Jnb h2) < K_herd p"
  shows "newborn_loop p rng hs sows k acc = Inr acc"
  using assms
  by (induction sows arbitrary: k acc) simp_all

lemma length_litters:
  "length (litters p rng k sows) = (\<Sum>i<length sows. nat (pba (rng (k + i))))"
proof (induction sows arbitrary: k)
  case Nil
  show ?case by (simp add: litters_def)
next
  case (Cons sow sows)
  have "length (litters p rng k (sow # sows))
          = nat (pba (rng k)) + length (litters p rng (Suc k) sows)"
    by (simp add: litters_def litter_def)
  also have "\<dots> = nat (pba (rng (k + 0))) + (\<Sum>i<length sows. nat (pba (rng (k + Suc i))))"
    unfolding Cons.IH by simp
  also have "\<dots> = (\<Sum>i<length (sow # sows). nat (pba (rng (k + i))))"
    unfolding length_Cons sum.lessThan_Suc_shift by simp
  finally show ?case .
qed

lemma litters_newborn: "a \<in> set (litters p rng k sows) \<Longrightarrow> age a = Age_Jnb"
  by (induction sows arbitrary: k) (auto simp: litters_def litter_def new_atom_def)

lemma filter_litters:
  "filter (\<lambda>a. age a = Age_Jnb) (litters p rng k sows) = litters p rng k sows"
  using litters_newborn by (simp add: filter_id_conv)

lemma filter_sows:
  "filter (\<lambda>a. age a = Age_Jnb) (filter (\<lambda>a. age a = Age_F) xs) = []"
  by (induction xs) auto

lemma produce_newborns_result:
  assumes h1: "hs 1 = Some h1" and h2: "hs 2 = Some h2"
  shows "\<exists>hs' h2'. produce_newborns p rng hs = Inr hs' \<and> hs' 2 = Some h2'
     \<and> (of_int (total_Jnb h2) < K_herd p \<longrightarrow>
           animals h2' = animals h2 @ filter (\<lambda>a. age a = Age_F) (animals h1)
                           @ litters p rng 0 (filter (\<lambda>a. age a = Age_F) (animals h1))
           \<and> total_Jnb h2'
               = total_Jnb h2
                 + int (\<Sum>i<length (filter (\<lambda>a. age a = Age_F) (animals h1)). nat (pba (rng i))))
     \<and> (\<not> of_int (total_Jnb h2) < K_herd p \<longrightarrow>
           animals h2' = animals h2 @ filter (\<lambda>a. age a = Age_F) (animals h1)
           \<and> total_Jnb h2' = total_Jnb h2)"
proof -
  let ?sows = "filter (\<lambda>a. age a = Age_F) (animals h1)"
  let ?hs1 = "hs(1 \<mapsto> h1\<lparr>animals := filter (\<lambda>a. age a \<noteq> Age_F) (animals h1),
                          nb_new_farrowing_sows := int (length ?sows)\<rparr>)"
  let ?p2 = "h2\<lparr>animals := animals h2 @ ?sows\<rparr>"
  let ?hs2 = "?hs1(2 \<mapsto> ?p2)"
  have h21: "?hs1 2 = Some h2" using h2 by simp
  have h22: "?hs2 2 = Some ?p2" by simp
  have j2: "total_Jnb ?p2 = total_Jnb h2" by (simp add: total_Jnb_def filter_sows)
  have unfold: "produce_newborns p rng hs
      = (case newborn_loop p rng ?hs2 ?sows 0 [] of
           Inl e \<Rightarrow> Inl e
         | Inr newborn \<Rightarrow>
             if length newborn \<noteq> 0 then Inr (?hs2(2 \<mapsto> ?p2\<lparr>animals := animals ?p2 @ newborn\<rparr>))
             else Inr ?hs2)"
    using h1 h21 by (simp add: produce_newborns_def Let_def split: sum.splits)
  show ?thesis
  proof (cases "of_int (total_Jnb h2) < K_herd p")
    case True
    then have "of_int (total_Jnb ?p2) < K_herd p" unfolding j2 .
    with h22 have loop: "newborn_loop p rng ?hs2 ?sows 0 [] = Inr ([] @ litters p rng 0 ?sows)"
      by (rule newborn_loop_open)
    let ?nb = "litters p rng 0 ?sows"
    let ?final = "?p2\<lparr>animals := animals ?p2 @ ?nb\<rparr>"
    have cnt: "total_Jnb ?final = total_Jnb h2 + int (\<Sum>i<length ?sows. nat (pba (rng i)))"
      using length_litters[of p rng 0 ?sows]
      by (simp add: total_Jnb_def filter_sows filter_litters)
    show ?thesis
    proof (cases "length ?nb \<noteq> 0")
      case nz: True
      have "produce_newborns p rng hs = Inr (?hs2(2 \<mapsto> ?final))"
        unfolding unfold loop using nz by simp
      moreover have "(?hs2(2 \<mapsto> ?final)) 2 = Some ?final" by simp
      moreover have "animals ?final = animals h2 @ ?sows @ ?nb" by simp
      ultimately show ?thesis using True cnt by blast
    next
      case z: False
      then have e: "?nb = []" by simp
      have "produce_newborns p rng hs = Inr ?hs2"
        unfolding unfold loop using z by simp
      moreover have "animals ?p2 = animals h2 @ ?sows @ ?nb" using e by simp
      moreover have "total_Jnb ?p2 = total_Jnb h2 + int (\<Sum>i<length ?sows. nat (pba (rng i)))"
        using cnt e by simp
      ultimately show ?thesis using True h22 by blast
    qed
  next
    case False
    then have "\<not> of_int (total_Jnb ?p2) < K_herd p" unfolding j2 .
    with h22 have loop: "newborn_loop p rng ?hs2 ?sows 0 [] = Inr []"
      by (rule newborn_loop_closed)
    have "produce_newborns p rng hs = Inr ?hs2"
      unfolding unfold loop by simp
    moreover have "animals ?p2 = animals h2 @ ?sows" by simp
    ultimately show ?thesis using False h22 j2 by blast
  qed
qed

lemma farrowing_farm_pens:
  "farrowing_farm 1 = Some (pen_of [pig Age_F State_S, pig Age_F State_M])"
  "farrowing_farm 2 = Some (pen_of [])"
  by (simp_all add: farrowing_farm_def farm_def)

lemma farrowing_farm_values:
  "real_of_int (total_Jnb (pen_of [])) < K_herd unit_parameters"
  "total_Jnb (pen_of [])
     + int (\<Sum>i<length (filter (\<lambda>a. age a = Age_F)
                          (animals (pen_of [pig Age_F State_S, pig Age_F State_M]))).
              nat (pba (twelve_draws i))) = 24"
  by (simp_all add: total_Jnb_def pen_of_def pig_def unit_parameters_def twelve_draws_def)

lemma newborn_overshoot_example:
  "\<exists>hs' h2'. produce_newborns unit_parameters twelve_draws farrowing_farm = Inr hs'
     \<and> hs' 2 = Some h2' \<and> K_herd unit_parameters < of_int (total_Jnb h2')"
proof -
  from produce_newborns_result[OF farrowing_farm_pens, of unit_parameters twelve_draws]
  obtain hs' h2' where
    r: "produce_newborns unit_parameters twelve_draws farrowing_farm = Inr hs'"
    and s: "hs' 2 = Some h2'"
    and t: "real_of_int (total_Jnb (pen_of [])) < K_herd unit_parameters \<longrightarrow>
       total_Jnb h2' = total_Jnb (pen_of [])
         + int (\<Sum>i<length (filter (\<lambda>a. age a = Age_F)
                          (animals (pen_of [pig Age_F State_S, pig Age_F State_M]))).
              nat (pba (twelve_draws i)))"
    by blast
  from t farrowing_farm_values have "total_Jnb h2' = 24" by simp
  then have "K_herd unit_parameters < of_int (total_Jnb h2')"
    by (simp add: unit_parameters_def)
  with r s show ?thesis by blast
qed

text \<open>
  C4. On a farm that has pens 1 and 2, newborn production returns, and the cap test of
  every sow reads the newborn count pen 2 had when the loop started: no newborn joins
  the pen before the loop has ended. If that count is below \<open>K_herd\<close>, every
  farrowing sow produces its litter (the pen receives the sows and then the litters of
  all of them, in order) and the newborn count grows by the sum of the litter sizes;
  otherwise no sow produces and the count stays. The final count can exceed
  \<open>K_herd\<close>: some parameters, draws and farm end above the cap.
\<close>

theorem newborn_cap_read_at_loop_start:
  assumes h1: "hs 1 = Some h1" and h2: "hs 2 = Some h2"
  shows "(\<exists>hs' h2'. produce_newborns p rng hs = Inr hs' \<and> hs' 2 = Some h2'
     \<and> (of_int (total_Jnb h2) < K_herd p \<longrightarrow>
           animals h2' = animals h2 @ filter (\<lambda>a. age a = Age_F) (animals h1)
                           @ litters p rng 0 (filter (\<lambda>a. age a = Age_F) (animals h1))
           \<and> total_Jnb h2'
               = total_Jnb h2
                 + int (\<Sum>i<length (filter (\<lambda>a. age a = Age_F) (animals h1)). nat (pba (rng i))))
     \<and> (\<not> of_int (total_Jnb h2) < K_herd p \<longrightarrow>
           animals h2' = animals h2 @ filter (\<lambda>a. age a = Age_F) (animals h1)
           \<and> total_Jnb h2' = total_Jnb h2))
   \<and> (\<exists>p' rng' s s' pen2. produce_newborns p' rng' s = Inr s' \<and> s' 2 = Some pen2
         \<and> K_herd p' < of_int (total_Jnb pen2))"
proof (rule conjI)
  show "\<exists>hs' h2'. produce_newborns p rng hs = Inr hs' \<and> hs' 2 = Some h2'
     \<and> (of_int (total_Jnb h2) < K_herd p \<longrightarrow>
           animals h2' = animals h2 @ filter (\<lambda>a. age a = Age_F) (animals h1)
                           @ litters p rng 0 (filter (\<lambda>a. age a = Age_F) (animals h1))
           \<and> total_Jnb h2'
               = total_Jnb h2
                 + int (\<Sum>i<length (filter (\<lambda>a. age a = Age_F) (animals h1)). nat (pba (rng i))))
     \<and> (\<not> of_int (total_Jnb h2) < K_herd p \<longrightarrow>
           animals h2' = animals h2 @ filter (\<lambda>a. age a = Age_F) (animals h1)
           \<and> total_Jnb h2' = total_Jnb h2)"
    using h1 h2 by (rule produce_newborns_result)
  from newborn_overshoot_example
  show "\<exists>p' rng' s s' pen2. produce_newborns p' rng' s = Inr s' \<and> s' 2 = Some pen2
         \<and> K_herd p' < of_int (total_Jnb pen2)"
    by (elim exE) (intro exI)
qed

theorem newborn_cap_read_at_loop_start_witness:
  "farrowing_farm 1 = Some (pen_of [pig Age_F State_S, pig Age_F State_M])
   \<and> farrowing_farm 2 = Some (pen_of [])
   \<and> K_herd unit_parameters = 10
   \<and> (\<exists>hs' h2'. produce_newborns unit_parameters twelve_draws farrowing_farm = Inr hs'
         \<and> hs' 2 = Some h2' \<and> total_Jnb h2' = 24)"
proof -
  have a: "farrowing_farm 1 = Some (pen_of [pig Age_F State_S, pig Age_F State_M])"
    by (simp add: farrowing_farm_def farm_def)
  have b: "farrowing_farm 2 = Some (pen_of [])"
    by (simp add: farrowing_farm_def farm_def)
  have k: "K_herd unit_parameters = 10" by (simp add: unit_parameters_def)
  from newborn_cap_read_at_loop_start[OF a b, of unit_parameters twelve_draws]
  obtain hs' h2' where
    r: "produce_newborns unit_parameters twelve_draws farrowing_farm = Inr hs'"
    and s: "hs' 2 = Some h2'"
    and t: "real_of_int (total_Jnb (pen_of [])) < K_herd unit_parameters \<longrightarrow>
       total_Jnb h2' = total_Jnb (pen_of [])
         + int (\<Sum>i<length (filter (\<lambda>a. age a = Age_F)
                          (animals (pen_of [pig Age_F State_S, pig Age_F State_M]))).
              nat (pba (twelve_draws i)))"
    by blast
  from t farrowing_farm_values have "total_Jnb h2' = 24" by simp
  with a b k r s show ?thesis by blast
qed

end
